theory Spec2Isabelle
  imports Main "HOL-Library.AList"
begin

section \<open>The time library, as far as the program uses it\<close>

text \<open>
  A \<open>time.Time\<close> is an instant together with a location. The instant is counted in
  nanoseconds since the Unix epoch. A location is what Go's zone tables hold of it: the
  offset east of UTC, in seconds, in effect before the first transition, and the
  transitions in ascending order, each the Unix second at which an offset begins and
  that offset. \<open>time.UTC\<close> and a \<open>time.FixedZone\<close> (the location of a commit's
  date) have no transition; \<open>time.Local\<close>, the location of \<open>time.Now()\<close>, has
  those of the machine's zone, daylight saving among them. Go's \<open>int\<close> and
  \<open>time.Duration\<close> are 64-bit; every quantity below is a day count of at most a few
  hundred, a commit count, or an instant of the present era, so they are modelled as
  unbounded integers.
\<close>

record location =
  zoneFirst :: int
  zoneChanges :: "(int \<times> int) list"

record time =
  unixNano :: int
  loc :: location

definition Second :: int where
  "Second = 1000000000"

definition Hour :: int where
  "Hour = 3600 * Second"

definition Before :: "time \<Rightarrow> time \<Rightarrow> bool" where
  "Before t u = (unixNano t < unixNano u)"

definition After :: "time \<Rightarrow> time \<Rightarrow> bool" where
  "After t u = (unixNano t > unixNano u)"

definition Add :: "time \<Rightarrow> int \<Rightarrow> time" where
  "Add t d = t\<lparr>unixNano := unixNano t + d\<rparr>"

text \<open>
  The lookup of a location at a Unix second: the offset in effect, the second at which
  it began and the second at which it stops, where there is one. The first function
  walks the transitions with the offset in effect so far.
\<close>

fun lookupFrom ::
  "int \<Rightarrow> int option \<Rightarrow> (int \<times> int) list \<Rightarrow> int \<Rightarrow> int \<times> int option \<times> int option" where
  "lookupFrom offset start [] sec = (offset, start, None)"
| "lookupFrom offset start ((at, offset2) # tx) sec =
     (if sec < at then (offset, start, Some at) else lookupFrom offset2 (Some at) tx sec)"

definition lookup :: "location \<Rightarrow> int \<Rightarrow> int \<times> int option \<times> int option" where
  "lookup l sec = lookupFrom (zoneFirst l) None (zoneChanges l) sec"

definition unixSec :: "time \<Rightarrow> int" where
  "unixSec t = unixNano t div Second"

text \<open>The offset of the location of \<open>t\<close> at the instant \<open>t\<close>.\<close>

definition zoneOffset :: "time \<Rightarrow> int" where
  "zoneOffset t = fst (lookup (loc t) (unixSec t))"

text \<open>The number of the civil day of \<open>t\<close> in its own location, day 0 being 1970-01-01.\<close>

definition localDay :: "time \<Rightarrow> int" where
  "localDay t = (unixSec t + zoneOffset t) div 86400"

text \<open>
  \<open>time.Date(year, month, day, 0, 0, 0, 0, l)\<close> for the civil day of the given number,
  in Unix seconds. As the library does, the midnight is first taken as if it were UTC and
  looked up; the offset found is subtracted if the resulting instant lies in the span of
  that offset, and otherwise the offset in effect at the resulting instant.
\<close>

definition dateMidnight :: "location \<Rightarrow> int \<Rightarrow> int" where
  "dateMidnight l day =
     (let unix = day * 86400
      in case lookup l unix of
           (offset, start, stop) \<Rightarrow>
             if offset \<noteq> 0 then
               (let utc = unix - offset;
                    offset2 =
                      (if (case start of None \<Rightarrow> False | Some s \<Rightarrow> utc < s)
                          \<or> (case stop of None \<Rightarrow> False | Some e \<Rightarrow> utc \<ge> e)
                       then fst (lookup l utc) else offset)
                in unix - offset2)
             else unix)"

text \<open>\<open>t.Weekday()\<close>: 0 is Sunday, 6 is Saturday; 1970-01-01 was a Thursday.\<close>

definition Weekday :: "time \<Rightarrow> int" where
  "Weekday t = (localDay t + 4) mod 7"

text \<open>
  \<open>t.Month()\<close>, 1 for January to 12 for December: the month of the proleptic Gregorian
  calendar in which the civil day of \<open>t\<close> lies, computed from the day number by eras of
  400 years that start on 1 March.
\<close>

definition Month :: "time \<Rightarrow> int" where
  "Month t =
     (let z = localDay t + 719468;
          doe = z mod 146097;
          yoe = (doe - doe div 1460 + doe div 36524 - doe div 146096) div 365;
          doy = doe - (365 * yoe + yoe div 4 - yoe div 100);
          mp = (5 * doy + 2) div 153
      in if mp < 10 then mp + 3 else mp - 9)"

text \<open>\<open>Month.String()\<close> for the twelve months.\<close>

definition monthString :: "int \<Rightarrow> string" where
  "monthString m =
     [''January'', ''February'', ''March'', ''April'', ''May'', ''June'', ''July'',
      ''August'', ''September'', ''October'', ''November'', ''December''] ! nat (m - 1)"

section \<open>Constants\<close>

definition daysInLastSixMonths :: int where
  "daysInLastSixMonths = 183"

definition outOfRange :: int where
  "outOfRange = 99999"

section \<open>Date arithmetic\<close>

text \<open>
  \<open>getBeginningOfDay\<close>: \<open>t.Date()\<close> gives the civil day of \<open>t\<close> in its location, and
  \<open>time.Date(year, month, day, 0, 0, 0, 0, t.Location())\<close> the midnight of that day
  in that location.
\<close>

definition getBeginningOfDay :: "time \<Rightarrow> time" where
  "getBeginningOfDay t =
     \<lparr>unixNano = dateMidnight (loc t) (localDay t) * Second, loc = loc t\<rparr>"

text \<open>
  The loop of \<open>countDaysSinceDate\<close>; \<open>now\<close> is the beginning of the current day.
  The counter is at most 183 when the loop goes round again, which bounds the iterations.
\<close>

function countDaysLoop :: "time \<Rightarrow> time \<Rightarrow> int \<Rightarrow> int" where
  "countDaysLoop now date days =
     (if Before date now
      then (if days + 1 > daysInLastSixMonths then outOfRange
            else countDaysLoop now (Add date (Hour * 24)) (days + 1))
      else days)"
  by pat_completeness auto
termination
  by (relation "measure (\<lambda>(now, date, days). nat (daysInLastSixMonths - days))")
     (auto simp: daysInLastSixMonths_def)

text \<open>
  \<open>countDaysSinceDate\<close> reads the clock itself; \<open>clockNow\<close> is the value that its call
  of \<open>time.Now()\<close> returns.
\<close>

definition countDaysSinceDate :: "time \<Rightarrow> time \<Rightarrow> int" where
  "countDaysSinceDate clockNow date = countDaysLoop (getBeginningOfDay clockNow) date 0"

text \<open>
  \<open>calcOffset\<close>, likewise with the clock's reading as a parameter. The switch has no
  default: a weekday outside the seven cases would leave \<open>offset\<close> at its zero value.
\<close>

definition Sunday :: int where "Sunday = 0"
definition Monday :: int where "Monday = 1"
definition Tuesday :: int where "Tuesday = 2"
definition Wednesday :: int where "Wednesday = 3"
definition Thursday :: int where "Thursday = 4"
definition Friday :: int where "Friday = 5"
definition Saturday :: int where "Saturday = 6"

definition offsetOfWeekday :: "int \<Rightarrow> int" where
  "offsetOfWeekday weekday =
     (if weekday = Sunday then 7
      else if weekday = Monday then 6
      else if weekday = Tuesday then 5
      else if weekday = Wednesday then 4
      else if weekday = Thursday then 3
      else if weekday = Friday then 2
      else if weekday = Saturday then 1
      else 0)"

definition calcOffset :: "time \<Rightarrow> int" where
  "calcOffset clockNow = offsetOfWeekday (Weekday clockNow)"

section \<open>Maps, commits and repositories\<close>

text \<open>
  A Go \<open>map[int]T\<close> is an association list with distinct keys. \<open>m[k]\<close> reads the zero
  value where the key is missing; \<open>m[k] = v\<close> replaces the entry of \<open>k\<close> or adds one.
  The order of the list stands for nothing: the program sorts the keys before it walks
  a map.
\<close>

type_synonym 'v gomap = "(int \<times> 'v) list"

definition mapIndex :: "int gomap \<Rightarrow> int \<Rightarrow> int" where
  "mapIndex m k = (case map_of m k of None \<Rightarrow> 0 | Some v \<Rightarrow> v)"

definition mapAssign :: "'v gomap \<Rightarrow> int \<Rightarrow> 'v \<Rightarrow> 'v gomap" where
  "mapAssign m k v = AList.update k v m"

text \<open>\<open>m[k]++\<close>\<close>

definition mapIncr :: "int gomap \<Rightarrow> int \<Rightarrow> int gomap" where
  "mapIncr m k = mapAssign m k (mapIndex m k + 1)"

text \<open>
  What can stop the program: an error that go-git returns (the program passes each one
  to \<open>panic\<close>), and the run-time panic of an index out of range, with the index and
  the length.
\<close>

datatype error = GitError string | IndexOutOfRange int nat

record signature =
  Email :: string
  When :: time

record commit =
  Author :: signature

text \<open>
  The commit iterator that \<open>repo.Log\<close> returns: the commits it yields, and the error,
  if any, on which \<open>ForEach\<close> ends after them.
\<close>

record commitIter =
  iterCommits :: "commit list"
  iterError :: "error option"

text \<open>A repository: what \<open>repo.Head()\<close> and \<open>repo.Log\<close> from that head return.\<close>

record repository =
  Head :: "error + nat"
  Log :: "error + commitIter"

text \<open>\<open>git.PlainOpen\<close> on the paths of the machine.\<close>

type_synonym disk = "string \<Rightarrow> error + repository"

text \<open>
  The system clock: reading number \<open>n\<close> of a run returns \<open>clk n\<close>. Every function that
  calls \<open>time.Now()\<close>, directly or through a callee, takes the clock and the number of
  readings made so far, and returns that number with its result.
\<close>

type_synonym clock = "nat \<Rightarrow> time"

section \<open>The day aggregator\<close>

text \<open>The function literal that \<open>fillCommits\<close> passes to \<open>ForEach\<close>; it never returns an error.\<close>

definition commitCallback :: "time \<Rightarrow> string \<Rightarrow> int \<Rightarrow> commit \<Rightarrow> int gomap \<Rightarrow> int gomap" where
  "commitCallback clockNow email offset c commits =
     (let daysAgo = countDaysSinceDate clockNow (When (Author c)) + offset
      in if Email (Author c) \<noteq> email then commits
         else if daysAgo \<noteq> outOfRange then mapIncr commits daysAgo
         else commits)"

fun forEachCommit ::
  "clock \<Rightarrow> string \<Rightarrow> int \<Rightarrow> commit list \<Rightarrow> int gomap \<times> nat \<Rightarrow> int gomap \<times> nat" where
  "forEachCommit clk email offset [] (commits, n) = (commits, n)"
| "forEachCommit clk email offset (c # cs) (commits, n) =
     forEachCommit clk email offset cs (commitCallback (clk n) email offset c commits, Suc n)"

definition fillCommits ::
  "clock \<Rightarrow> disk \<Rightarrow> string \<Rightarrow> string \<Rightarrow> int gomap \<times> nat \<Rightarrow> error + (int gomap \<times> nat)" where
  "fillCommits clk PlainOpen email path st =
     (case PlainOpen path of
        Inl err \<Rightarrow> Inl err
      | Inr repo \<Rightarrow>
          (case Head repo of
             Inl err \<Rightarrow> Inl err
           | Inr ref \<Rightarrow>
               (case Log repo of
                  Inl err \<Rightarrow> Inl err
                | Inr iterator \<Rightarrow>
                    (let offset = calcOffset (clk (snd st));
                         st' = forEachCommit clk email offset (iterCommits iterator)
                                 (fst st, Suc (snd st))
                     in case iterError iterator of
                          Some err \<Rightarrow> Inl err
                        | None \<Rightarrow> Inr st'))))"

text \<open>The first loop of \<open>processRepositories\<close>: \<open>for i := daysInMap; i > 0; i--\<close>.\<close>

function seedLoop :: "int \<Rightarrow> int gomap \<Rightarrow> int gomap" where
  "seedLoop i commits = (if i > 0 then seedLoop (i - 1) (mapAssign commits i 0) else commits)"
  by pat_completeness auto
termination
  by (relation "measure (\<lambda>(i, commits). nat i)") auto

text \<open>The second loop: \<open>for _, path := range repos\<close>; a panic ends it.\<close>

fun reposLoop ::
  "clock \<Rightarrow> disk \<Rightarrow> string \<Rightarrow> string list \<Rightarrow> int gomap \<times> nat \<Rightarrow> error + (int gomap \<times> nat)" where
  "reposLoop clk PlainOpen email [] st = Inr st"
| "reposLoop clk PlainOpen email (path # paths) st =
     (case fillCommits clk PlainOpen email path st of
        Inl err \<Rightarrow> Inl err
      | Inr st' \<Rightarrow> reposLoop clk PlainOpen email paths st')"

text \<open>
  \<open>processRepositories\<close>; \<open>repos\<close> is the list of paths that \<open>parseFileLinesToSlice\<close>
  read from the dot file, and \<open>n\<close> the number of clock readings before the call.
\<close>

definition processRepositories ::
  "clock \<Rightarrow> disk \<Rightarrow> string list \<Rightarrow> string \<Rightarrow> nat \<Rightarrow> error + (int gomap \<times> nat)" where
  "processRepositories clk PlainOpen repos email n =
     (let daysInMap = daysInLastSixMonths;
          commits = seedLoop daysInMap []
      in reposLoop clk PlainOpen email repos (commits, n))"

section \<open>The calendar folder\<close>

type_synonym column = "int list"

text \<open>\<open>sortMapIntoSlice\<close>: the keys of the map, in ascending order.\<close>

definition sortMapIntoSlice :: "int gomap \<Rightarrow> int list" where
  "sortMapIntoSlice m = sort (map fst m)"

text \<open>Go's \<open>/\<close> and \<open>%\<close> on integers: the quotient is truncated towards zero.\<close>

definition goDiv :: "int \<Rightarrow> int \<Rightarrow> int" where
  "goDiv a b = sgn a * sgn b * (\<bar>a\<bar> div \<bar>b\<bar>)"

definition goMod :: "int \<Rightarrow> int \<Rightarrow> int" where
  "goMod a b = a - goDiv a b * b"

text \<open>
  The loop of \<open>buildCols\<close>, on the keys still to come, with the grid and the column
  being filled; it returns both as they stand after the last key, and \<open>buildCols\<close>
  returns the grid. A column is stored in the grid as the slice stands at that moment;
  a later \<open>append\<close> writes past its end and leaves it as it was.
\<close>

fun buildColsLoop ::
  "int list \<Rightarrow> int gomap \<Rightarrow> column gomap \<times> column \<Rightarrow> column gomap \<times> column" where
  "buildColsLoop [] commits (cols, col) = (cols, col)"
| "buildColsLoop (k # keys) commits (cols, col) =
     (let week = goDiv k 7;
          dayinweek = goMod k 7;
          col1 = (if dayinweek = 0 then [] else col);
          col2 = col1 @ [mapIndex commits k];
          cols2 = (if dayinweek = 6 then mapAssign cols week col2 else cols)
      in buildColsLoop keys commits (cols2, col2))"

definition buildCols :: "int list \<Rightarrow> int gomap \<Rightarrow> column gomap" where
  "buildCols keys commits = fst (buildColsLoop keys commits ([], []))"

section \<open>The heatmap renderer\<close>

text \<open>What the program writes to standard output is collected in a string.\<close>

definition digitChar :: "nat \<Rightarrow> char" where
  "digitChar d = ''0123456789'' ! d"

function showNat :: "nat \<Rightarrow> string" where
  "showNat n = (if n < 10 then [digitChar n] else showNat (n div 10) @ [digitChar (n mod 10)])"
  by pat_completeness auto
termination
  by (relation "measure (\<lambda>n. n)") auto

text \<open>The verb \<open>%d\<close> on an integer.\<close>

definition showInt :: "int \<Rightarrow> string" where
  "showInt i = (if i < 0 then CHR ''-'' # showNat (nat (- i)) else showNat (nat i))"

text \<open>
  \<open>fmt.Sprintf\<close> on a format with at most one verb, which is \<open>%d\<close>, and one integer
  operand: the text of the format with the verb replaced by the number.
\<close>

fun Sprintf :: "string \<Rightarrow> int \<Rightarrow> string" where
  "Sprintf (a # b # cs) v =
     (if a = CHR ''%'' \<and> b = CHR ''d'' then showInt v @ cs else a # Sprintf (b # cs) v)"
| "Sprintf cs v = cs"

text \<open>\<open>printCell\<close>: the text it prints. \<open>CHR 0x1B\<close> is the escape character \<open>\033\<close>.\<close>

definition printCell :: "int \<Rightarrow> bool \<Rightarrow> string" where
  "printCell val today =
     (let escape0 = CHR 0x1B # ''[0;37;30m'';
          escape1 =
            (if val > 0 \<and> val < 5 then CHR 0x1B # ''[1;30;47m''
             else if val \<ge> 5 \<and> val < 10 then CHR 0x1B # ''[1;30;43m''
             else if val \<ge> 10 then CHR 0x1B # ''[1;30;42m''
             else escape0);
          escape = (if today then CHR 0x1B # ''[1;37;45m'' else escape1)
      in if val = 0 then escape @ ''  - '' @ CHR 0x1B # ''[0m''
         else
           (let str0 = ''  %d '';
                str =
                  (if val \<ge> 10 then '' %d ''
                   else if val \<ge> 100 then ''%d ''
                   else str0)
            in Sprintf (escape @ str @ CHR 0x1B # ''[0m'') val))"

definition printDayCol :: "int \<Rightarrow> string" where
  "printDayCol day =
     (if day = 1 then '' Mon ''
      else if day = 3 then '' Wed ''
      else if day = 5 then '' Fri ''
      else ''     '')"

text \<open>
  The loop of \<open>printMonths\<close>. It ends when the stepped date is after the reading of the
  clock made in that round; on a clock that runs ahead of it for ever it does not end,
  and the result is \<open>None\<close>.
\<close>

partial_function (option) printMonthsLoop ::
  "clock \<Rightarrow> time \<Rightarrow> int \<Rightarrow> string \<times> nat \<Rightarrow> (string \<times> nat) option" where
  "printMonthsLoop clk week month st =
     (let out1 =
            (if Month week \<noteq> month then fst st @ take 3 (monthString (Month week)) @ '' ''
             else fst st @ ''    '');
          month1 = (if Month week \<noteq> month then Month week else month);
          week1 = Add week (7 * Hour * 24)
      in if After week1 (clk (snd st)) then Some (out1, Suc (snd st))
         else printMonthsLoop clk week1 month1 (out1, Suc (snd st)))"

declare printMonthsLoop.simps [code]

definition printMonths :: "clock \<Rightarrow> string \<times> nat \<Rightarrow> (string \<times> nat) option" where
  "printMonths clk st =
     (let week = Add (getBeginningOfDay (clk (snd st))) (- (daysInLastSixMonths * Hour * 24));
          month = Month week
      in case printMonthsLoop clk week month (fst st @ ''         '', Suc (snd st)) of
           None \<Rightarrow> None
         | Some st1 \<Rightarrow> Some (fst st1 @ [CHR 0x0A], snd st1))"

text \<open>\<open>col[j]\<close> on a slice: a panic when the index is not below the length.\<close>

definition sliceIndex :: "column \<Rightarrow> int \<Rightarrow> error + int" where
  "sliceIndex col j =
     (if 0 \<le> j \<and> j < int (length col) then Inr (col ! nat j)
      else Inl (IndexOutOfRange j (length col)))"

text \<open>
  One round of the inner loop of \<open>printCells\<close>, after the day label: the cell of week
  \<open>i\<close> in row \<open>j\<close>. \<open>calcOffset\<close> is called, and the clock read, only where
  \<open>i == 0\<close> holds in a week that has a column.
\<close>

definition printCellAt ::
  "clock \<Rightarrow> column gomap \<Rightarrow> int \<Rightarrow> int \<Rightarrow> string \<times> nat \<Rightarrow> error + (string \<times> nat)" where
  "printCellAt clk cols j i st =
     (case map_of cols i of
        Some col \<Rightarrow>
          (if i = 0 then
             (if j = calcOffset (clk (snd st)) - 1 then
                (case sliceIndex col j of
                   Inl err \<Rightarrow> Inl err
                 | Inr v \<Rightarrow> Inr (fst st @ printCell v True, Suc (snd st)))
              else if int (length col) > j then
                (case sliceIndex col j of
                   Inl err \<Rightarrow> Inl err
                 | Inr v \<Rightarrow> Inr (fst st @ printCell v False, Suc (snd st)))
              else Inr (fst st @ printCell 0 False, Suc (snd st)))
           else if int (length col) > j then
             (case sliceIndex col j of
                Inl err \<Rightarrow> Inl err
              | Inr v \<Rightarrow> Inr (fst st @ printCell v False, snd st))
           else Inr (fst st @ printCell 0 False, snd st))
      | None \<Rightarrow> Inr (fst st @ printCell 0 False, snd st))"

text \<open>
  The inner loop, \<open>for i := weeksInLastSixMonths + 1; i >= 0; i--\<close>. The constant
  \<open>weeksInLastSixMonths\<close> is not declared in the source at hand and is a parameter.
\<close>

function weeksLoop ::
  "clock \<Rightarrow> int \<Rightarrow> column gomap \<Rightarrow> int \<Rightarrow> int \<Rightarrow> string \<times> nat \<Rightarrow> error + (string \<times> nat)" where
  "weeksLoop clk weeksInLastSixMonths cols j i st =
     (if i \<ge> 0 then
        (case printCellAt clk cols j i
                (if i = weeksInLastSixMonths + 1 then (fst st @ printDayCol j, snd st) else st) of
           Inl err \<Rightarrow> Inl err
         | Inr st1 \<Rightarrow> weeksLoop clk weeksInLastSixMonths cols j (i - 1) st1)
      else Inr st)"
  by pat_completeness auto
termination
  by (relation "measure (\<lambda>(clk, w, cols, j, i, st). nat (i + 1))") auto

text \<open>The outer loop, \<open>for j := 6; j >= 0; j--\<close>.\<close>

function daysLoop ::
  "clock \<Rightarrow> int \<Rightarrow> column gomap \<Rightarrow> int \<Rightarrow> string \<times> nat \<Rightarrow> error + (string \<times> nat)" where
  "daysLoop clk weeksInLastSixMonths cols j st =
     (if j \<ge> 0 then
        (case weeksLoop clk weeksInLastSixMonths cols j (weeksInLastSixMonths + 1) st of
           Inl err \<Rightarrow> Inl err
         | Inr st1 \<Rightarrow>
             daysLoop clk weeksInLastSixMonths cols (j - 1) (fst st1 @ [CHR 0x0A], snd st1))
      else Inr st)"
  by pat_completeness auto
termination
  by (relation "measure (\<lambda>(clk, w, cols, j, st). nat (j + 1))") auto

definition printCells ::
  "clock \<Rightarrow> int \<Rightarrow> column gomap \<Rightarrow> string \<times> nat \<Rightarrow> (error + (string \<times> nat)) option" where
  "printCells clk weeksInLastSixMonths cols st =
     (case printMonths clk st of
        None \<Rightarrow> None
      | Some st1 \<Rightarrow> Some (daysLoop clk weeksInLastSixMonths cols 6 st1))"

definition printCommitsStats ::
  "clock \<Rightarrow> int \<Rightarrow> int gomap \<Rightarrow> string \<times> nat \<Rightarrow> (error + (string \<times> nat)) option" where
  "printCommitsStats clk weeksInLastSixMonths commits st =
     (let keys = sortMapIntoSlice commits;
          cols = buildCols keys commits
      in printCells clk weeksInLastSixMonths cols st)"

text \<open>
  \<open>stats\<close>, from an empty standard output and a clock not yet read: the text printed
  and the number of clock readings made, or the panic that ended the run.
\<close>

definition stats ::
  "clock \<Rightarrow> disk \<Rightarrow> string list \<Rightarrow> int \<Rightarrow> string \<Rightarrow> (error + (string \<times> nat)) option" where
  "stats clk PlainOpen repos weeksInLastSixMonths email =
     (case processRepositories clk PlainOpen repos email 0 of
        Inl err \<Rightarrow> Some (Inl err)
      | Inr (commits, n) \<Rightarrow> printCommitsStats clk weeksInLastSixMonths commits ([], n))"

section \<open>Definitions for the statements\<close>


text \<open>
  \<open>time.UTC\<close>, \<open>time.FixedZone\<close> with its offset in seconds, and the zone of
  Europe/Rome for 2026: one hour east of UTC, two hours from 2026-03-29 01:00 UTC to
  2026-10-25 01:00 UTC.
\<close>

definition UTC :: location where
  "UTC = \<lparr>zoneFirst = 0, zoneChanges = []\<rparr>"



text \<open>
  The days from \<open>date\<close> to \<open>now\<close>, a day begun counting as a whole one: the number of
  rounds that the loop of \<open>countDaysSinceDate\<close> would make without its bound.
\<close>

definition ceilDays :: "time \<Rightarrow> time \<Rightarrow> int" where
  "ceilDays now date = (unixNano now - unixNano date + (24 * Hour - 1)) div (24 * Hour)"

text \<open>
  Inputs for the examples: noon UTC of a day given by its number (day 20754 is Wednesday
  2026-10-28), a commit by its author's address and date, and a machine with one
  repository, at \<open>/repo\<close>, that holds the given commits; no other path opens.
\<close>

definition noonOfDay :: "int \<Rightarrow> time" where
  "noonOfDay d = \<lparr>unixNano = d * (24 * Hour) + 12 * Hour, loc = UTC\<rparr>"

definition commitBy :: "string \<Rightarrow> time \<Rightarrow> commit" where
  "commitBy email t = \<lparr>Author = \<lparr>Email = email, When = t\<rparr>\<rparr>"

definition oneRepo :: "commit list \<Rightarrow> disk" where
  "oneRepo cs path =
     (if path = ''/repo''
      then Inr \<lparr>Head = Inr 1, Log = Inr \<lparr>iterCommits = cs, iterError = None\<rparr>\<rparr>
      else Inl (GitError ''repository does not exist''))"

text \<open>
  The text of a printed string that takes room on the terminal: every escape sequence,
  from the escape character to the next \<open>m\<close>, is left out. The flag says whether the
  scan is inside a sequence.
\<close>

fun visibleFrom :: "bool \<Rightarrow> string \<Rightarrow> string" where
  "visibleFrom esc [] = []"
| "visibleFrom esc (c # cs) =
     (if esc then visibleFrom (c \<noteq> CHR ''m'') cs
      else if c = CHR 0x1B then visibleFrom True cs
      else c # visibleFrom False cs)"

definition cellWidth :: "string \<Rightarrow> nat" where
  "cellWidth s = length (visibleFrom False s)"

text \<open>
  The error, if any, that \<open>fillCommits\<close> meets in the repository at a path: from
  \<open>git.PlainOpen\<close>, from \<open>repo.Head()\<close>, from \<open>repo.Log\<close> or from \<open>ForEach\<close>.
\<close>

definition repoFailure :: "disk \<Rightarrow> string \<Rightarrow> error option" where
  "repoFailure PlainOpen path =
     (case PlainOpen path of
        Inl err \<Rightarrow> Some err
      | Inr repo \<Rightarrow>
          (case Head repo of
             Inl err \<Rightarrow> Some err
           | Inr ref \<Rightarrow>
               (case Log repo of
                  Inl err \<Rightarrow> Some err
                | Inr iterator \<Rightarrow> iterError iterator)))"

text \<open>
  What holds of every histogram that \<open>processRepositories\<close> builds: its keys are
  distinct, the keys 1 to 183 are among them, and no key is below 1.
\<close>

definition seeded :: "int gomap \<Rightarrow> bool" where
  "seeded m = (distinct (map fst m) \<and> {1..daysInLastSixMonths} \<subseteq> fst ` set m
               \<and> fst ` set m \<subseteq> {1..})"

text \<open>
  Commits for an example on Wednesday 2026-10-28: one of that day and two of three days
  before by the author counted, and one by somebody else.
\<close>

definition threeCommits :: "commit list" where
  "threeCommits =
     [commitBy ''a@b.c'' (noonOfDay 20754), commitBy ''a@b.c'' (noonOfDay 20751),
      commitBy ''x@y.z'' (noonOfDay 20753), commitBy ''a@b.c'' (noonOfDay 20751)]"

text \<open>
  The readings of a clock all fall on the civil day of \<open>now\<close>: each has the beginning
  of day and the weekday of \<open>now\<close>, and lies less than 24 hours after that beginning.
\<close>

definition readsOnDay :: "clock \<Rightarrow> time \<Rightarrow> bool" where
  "readsOnDay clk now =
     (\<forall>n. getBeginningOfDay (clk n) = getBeginningOfDay now
          \<and> Weekday (clk n) = Weekday now
          \<and> unixNano (getBeginningOfDay now) \<le> unixNano (clk n)
          \<and> unixNano (clk n) < unixNano (getBeginningOfDay now) + 24 * Hour)"

text \<open>
  A clock that starts at \<open>t\<close> and advances by \<open>step\<close> nanoseconds from one reading to
  the next, for \<open>limit\<close> readings, and an instant half a second before the midnight
  that ends Saturday 2026-10-31, in UTC.
\<close>

definition clockWithin :: "time \<Rightarrow> int \<Rightarrow> nat \<Rightarrow> clock" where
  "clockWithin t step limit n = Add t (int (min n limit) * step)"

definition lateSaturday :: time where
  "lateSaturday = \<lparr>unixNano = 20758 * (24 * Hour) - 500000000, loc = UTC\<rparr>"

section \<open>The alignment offset\<close>

lemma Weekday_range: "0 \<le> Weekday t \<and> Weekday t \<le> 6"
  by (simp add: Weekday_def)

lemma offsetOfWeekday_eq: "0 \<le> w \<Longrightarrow> w \<le> 6 \<Longrightarrow> offsetOfWeekday w = 7 - w"
  unfolding offsetOfWeekday_def Sunday_def Monday_def Tuesday_def Wednesday_def
    Thursday_def Friday_def Saturday_def
  by auto

lemma calcOffset_eq: "calcOffset t = 7 - Weekday t"
  unfolding calcOffset_def using Weekday_range [of t] by (simp add: offsetOfWeekday_eq)

lemma calcOffset_range: "1 \<le> calcOffset t \<and> calcOffset t \<le> 7"
  using Weekday_range [of t] by (simp add: calcOffset_eq)

text \<open>
  Claim C6. \<open>calcOffset\<close> covers the seven weekdays and nothing else is needed: the
  switch maps Sunday to 7, Monday to 6, Tuesday to 5, Wednesday to 4, Thursday to 3,
  Friday to 2 and Saturday to 1; the weekday of every clock reading is one of the seven,
  so the zero value of the missing default is never returned and the result, seven minus
  the weekday, lies between 1 and 7.
\<close>

theorem calcOffset_total:
  "offsetOfWeekday Sunday = 7 \<and> offsetOfWeekday Monday = 6 \<and> offsetOfWeekday Tuesday = 5
   \<and> offsetOfWeekday Wednesday = 4 \<and> offsetOfWeekday Thursday = 3
   \<and> offsetOfWeekday Friday = 2 \<and> offsetOfWeekday Saturday = 1
   \<and> Weekday clockNow \<in> {Sunday, Monday, Tuesday, Wednesday, Thursday, Friday, Saturday}
   \<and> calcOffset clockNow = 7 - Weekday clockNow
   \<and> 1 \<le> calcOffset clockNow \<and> calcOffset clockNow \<le> 7"
proof -
  have tbl: "offsetOfWeekday Sunday = 7 \<and> offsetOfWeekday Monday = 6 \<and> offsetOfWeekday Tuesday = 5
   \<and> offsetOfWeekday Wednesday = 4 \<and> offsetOfWeekday Thursday = 3
   \<and> offsetOfWeekday Friday = 2 \<and> offsetOfWeekday Saturday = 1"
    by (simp add: offsetOfWeekday_def Sunday_def Monday_def Tuesday_def Wednesday_def
        Thursday_def Friday_def Saturday_def)
  have mem: "Weekday clockNow \<in> {Sunday, Monday, Tuesday, Wednesday, Thursday, Friday, Saturday}"
    using Weekday_range [of clockNow]
    unfolding Sunday_def Monday_def Tuesday_def Wednesday_def
        Thursday_def Friday_def Saturday_def by auto
  show ?thesis using tbl mem calcOffset_eq [of clockNow] calcOffset_range [of clockNow] by blast
qed

section \<open>Counting the days since a date\<close>

lemma ceil_step: "(0::int) < D \<Longrightarrow> (x - D + (D - 1)) div D = (x + (D - 1)) div D - 1"
  using div_add_self1 [of D "x - 1"] by (simp add: algebra_simps)

lemma ceil_pos: "(0::int) < D \<Longrightarrow> 0 < x \<Longrightarrow> 1 \<le> (x + (D - 1)) div D"
  using pos_imp_zdiv_pos_iff [of D "x + (D - 1)"] by simp

lemma ceil_one: "(0::int) < D \<Longrightarrow> 0 < x \<Longrightarrow> x \<le> D \<Longrightarrow> (x + (D - 1)) div D = 1"
  using ceil_step [of D x] div_pos_pos_trivial [of "x - 1" D] by (simp add: algebra_simps)

lemma day_pos: "0 < 24 * Hour"
  by (simp add: Hour_def Second_def)

lemma countDaysLoop_closed:
  "countDaysLoop now date days =
     (if Before date now
      then (if days + ceilDays now date > daysInLastSixMonths then outOfRange
            else days + ceilDays now date)
      else days)"
proof (induction now date days rule: countDaysLoop.induct)
  case (1 now date days)
  show ?case
  proof (cases "Before date now")
    case False
    then show ?thesis by simp
  next
    case bef: True
    have pos: "1 \<le> ceilDays now date"
      using bef ceil_pos [OF day_pos, of "unixNano now - unixNano date"]
      by (simp add: ceilDays_def Before_def)
    show ?thesis
    proof (cases "days + 1 > daysInLastSixMonths")
      case True
      then show ?thesis using bef pos by simp
    next
      case small: False
      have step: "ceilDays now (Add date (Hour * 24)) = ceilDays now date - 1"
        using ceil_step [OF day_pos, of "unixNano now - unixNano date"]
        by (simp add: ceilDays_def Add_def algebra_simps)
      show ?thesis
      proof (cases "Before (Add date (Hour * 24)) now")
        case True
        then show ?thesis using bef small step "1.IH" [OF bef small]
          by (simp del: countDaysLoop.simps add: countDaysLoop.simps [of now date days])
      next
        case False
        have "ceilDays now date = 1"
          using False bef ceil_one [OF day_pos, of "unixNano now - unixNano date"]
          by (simp add: ceilDays_def Before_def Add_def algebra_simps)
        then show ?thesis using bef small False "1.IH" [OF bef small]
          by (simp del: countDaysLoop.simps add: countDaysLoop.simps [of now date days])
      qed
    qed
  qed
qed




lemma countDaysSinceDate_closed:
  "countDaysSinceDate clockNow date =
     (if Before date (getBeginningOfDay clockNow)
      then (if ceilDays (getBeginningOfDay clockNow) date > daysInLastSixMonths then outOfRange
            else ceilDays (getBeginningOfDay clockNow) date)
      else 0)"
  by (simp add: countDaysSinceDate_def countDaysLoop_closed del: countDaysLoop.simps)









section \<open>The cell\<close>

text \<open>
  Claim C7. \<open>printCell\<close> prints the empty marker on the neutral escape for 0, the
  number on the low band for 1 to 4, on the medium band for 5 to 9 and on the high band
  from 10 on; with the today flag the highlight escape stands in place of the band's and
  the marker or number printed is the same.
\<close>

theorem printCell_bands:
  "printCell 0 today =
      (if today then CHR 0x1B # ''[1;37;45m'' else CHR 0x1B # ''[0;37;30m'')
        @ ''  - '' @ CHR 0x1B # ''[0m''
   \<and> (1 \<le> val \<and> val \<le> 4 \<longrightarrow>
        printCell val today =
          (if today then CHR 0x1B # ''[1;37;45m'' else CHR 0x1B # ''[1;30;47m'')
            @ ''  '' @ showInt val @ '' '' @ CHR 0x1B # ''[0m'')
   \<and> (5 \<le> val \<and> val \<le> 9 \<longrightarrow>
        printCell val today =
          (if today then CHR 0x1B # ''[1;37;45m'' else CHR 0x1B # ''[1;30;43m'')
            @ ''  '' @ showInt val @ '' '' @ CHR 0x1B # ''[0m'')
   \<and> (10 \<le> val \<longrightarrow>
        printCell val today =
          (if today then CHR 0x1B # ''[1;37;45m'' else CHR 0x1B # ''[1;30;42m'')
            @ '' '' @ showInt val @ '' '' @ CHR 0x1B # ''[0m'')"
  by (simp add: printCell_def Let_def del: showNat.simps)

text \<open>The theorem at 3 on a plain day, at 7 today and at 12 on a plain day.\<close>

theorem printCell_bands_witness:
  "printCell 3 False = CHR 0x1B # ''[1;30;47m  3 '' @ CHR 0x1B # ''[0m''
   \<and> printCell 7 True = CHR 0x1B # ''[1;37;45m  7 '' @ CHR 0x1B # ''[0m''
   \<and> printCell 12 False = CHR 0x1B # ''[1;30;42m 12 '' @ CHR 0x1B # ''[0m''"
proof -
  have s: "showInt 3 = ''3''" "showInt 7 = ''7''" "showInt 12 = ''12''"
    by (simp_all add: showInt_def digitChar_def)
  show ?thesis
    using printCell_bands [of False 3] printCell_bands [of True 7] printCell_bands [of False 12]
    by (simp add: s)
qed

text \<open>
  Claim C8 asks for one width for all cells of a row. The switch of \<open>printCell\<close> tests
  \<open>val >= 10\<close> before \<open>val >= 100\<close>, so the format meant for three digits is never
  chosen: a cell of 100 is five characters wide, where the cells of 0, 5 and 99 are
  four wide.
\<close>

theorem printCell_width_100:
  "cellWidth (printCell 100 False) = 5 \<and> cellWidth (printCell 99 False) = 4
   \<and> cellWidth (printCell 5 False) = 4 \<and> cellWidth (printCell 0 False) = 4"
  by code_simp

section \<open>The sentinel of the window\<close>

text \<open>
  Claim C1 asks that no commit older than the window reaches the histogram. On a
  Wednesday (offset 4) a commit of the author made 200 days before gets the sentinel
  99999 from \<open>countDaysSinceDate\<close>; \<open>fillCommits\<close> adds the offset before it compares
  with the sentinel, so the commit is counted under the key 100003, far above 183 + 4.
\<close>

theorem sentinel_key_counted:
  "countDaysSinceDate (noonOfDay 20754) (noonOfDay 20554) = outOfRange
   \<and> calcOffset (noonOfDay 20754) = 4
   \<and> daysInLastSixMonths + calcOffset (noonOfDay 20754) < outOfRange + 4
   \<and> (case processRepositories (\<lambda>n. noonOfDay 20754)
              (oneRepo [commitBy ''a@b.c'' (noonOfDay 20554)]) [''/repo''] ''a@b.c'' 0 of
         Inl err \<Rightarrow> False
       | Inr (commits, n) \<Rightarrow> map_of commits (outOfRange + 4) = Some 1)"
  by code_simp

section \<open>The fold into weeks\<close>

text \<open>
  Claim C3 asks that the grid holds every count of the histogram. \<open>buildCols\<close> stores a
  column only at weekday position 6 and the keys end at 183, position 1 of week 26: on a
  Wednesday a commit made 179 days before is counted under key 183, the histogram sums
  to 1, and the grid sums to 0.
\<close>

theorem buildCols_drops_last_week:
  "(case processRepositories (\<lambda>n. noonOfDay 20754)
              (oneRepo [commitBy ''a@b.c'' (noonOfDay 20575)]) [''/repo''] ''a@b.c'' 0 of
         Inl err \<Rightarrow> False
       | Inr (commits, n) \<Rightarrow>
           map_of commits 183 = Some 1
           \<and> sum_list (map snd commits) = 1
           \<and> sum_list (concat (map snd (buildCols (sortMapIntoSlice commits) commits))) = 0)"
  by code_simp

section \<open>The today cell\<close>

text \<open>
  Claim C4 asks that rendering never fails and that \<open>col[j]\<close> in the today branch stays
  in range. On a Sunday the offset is 7 and the today cell is row 6 of week 0, whose
  column has the six entries of keys 1 to 6: with 26 for \<open>weeksInLastSixMonths\<close> and a
  repository without commits, the run ends in the panic of index 6 on length 6.
\<close>

theorem printCells_panics_on_sunday:
  "Weekday (noonOfDay 20758) = Sunday
   \<and> stats (\<lambda>n. noonOfDay 20758) (oneRepo []) [''/repo''] 26 ''a@b.c''
       = Some (Inl (IndexOutOfRange 6 6))"
  by code_simp

section \<open>Repositories that cannot be read\<close>

lemma fillCommits_fails:
  "repoFailure PlainOpen path = Some err \<Longrightarrow> fillCommits clk PlainOpen email path st = Inl err"
  by (auto simp: repoFailure_def fillCommits_def Let_def split: sum.splits option.splits)

lemma fillCommits_returns:
  "repoFailure PlainOpen path = None \<Longrightarrow> \<exists>st'. fillCommits clk PlainOpen email path st = Inr st'"
  by (auto simp: repoFailure_def fillCommits_def Let_def split: sum.splits option.splits)

lemma reposLoop_aborts:
  "\<forall>p\<in>set pre. repoFailure PlainOpen p = None \<Longrightarrow> repoFailure PlainOpen path = Some err \<Longrightarrow>
   reposLoop clk PlainOpen email (pre @ path # post) st = Inl err"
proof (induction pre arbitrary: st)
  case Nil
  then show ?case by (simp add: fillCommits_fails)
next
  case (Cons p pre)
  from Cons.prems have "repoFailure PlainOpen p = None" by simp
  then obtain st' where "fillCommits clk PlainOpen email p st = Inr st'"
    using fillCommits_returns by blast
  then show ?case using Cons by simp
qed

lemma reposLoop_returns:
  "\<forall>p\<in>set repos. repoFailure PlainOpen p = None \<Longrightarrow>
   \<exists>st'. reposLoop clk PlainOpen email repos st = Inr st'"
proof (induction repos arbitrary: st)
  case Nil
  then show ?case by simp
next
  case (Cons p repos)
  from Cons.prems have "repoFailure PlainOpen p = None" by simp
  then obtain st' where "fillCommits clk PlainOpen email p st = Inr st'"
    using fillCommits_returns by blast
  then show ?case using Cons by simp
qed

text \<open>
  Claim C2 says that a repository that cannot be opened, has no head or fails in its log
  is skipped and the others are still processed. The program passes each such error to
  \<open>panic\<close>. As amended: the run ends with the error of the first repository, in the
  order of the list, that cannot be read, whatever comes after it; a result is returned
  when every repository of the list can be read.
\<close>

theorem first_failure_aborts_run:
  "((\<forall>p\<in>set pre. repoFailure PlainOpen p = None) \<and> repoFailure PlainOpen path = Some err
      \<longrightarrow> processRepositories clk PlainOpen (pre @ path # post) email n = Inl err)
   \<and> ((\<forall>p\<in>set repos. repoFailure PlainOpen p = None)
      \<longrightarrow> (\<exists>st. processRepositories clk PlainOpen repos email n = Inr st))"
proof (intro conjI impI)
  assume "(\<forall>p\<in>set pre. repoFailure PlainOpen p = None) \<and> repoFailure PlainOpen path = Some err"
  then show "processRepositories clk PlainOpen (pre @ path # post) email n = Inl err"
    unfolding processRepositories_def Let_def by (simp add: reposLoop_aborts del: seedLoop.simps)
next
  assume a: "\<forall>p\<in>set repos. repoFailure PlainOpen p = None"
  show "\<exists>st. processRepositories clk PlainOpen repos email n = Inr st"
    unfolding processRepositories_def Let_def by (rule reposLoop_returns [OF a])
qed

text \<open>
  The theorem on a list whose second path does not open, and on a list of readable
  paths.
\<close>

theorem first_failure_aborts_run_witness:
  "processRepositories (\<lambda>n. noonOfDay 20754) (oneRepo [commitBy ''a@b.c'' (noonOfDay 20754)])
       ([''/repo''] @ ''/missing'' # [''/repo'']) ''a@b.c'' 0
     = Inl (GitError ''repository does not exist'')
   \<and> (\<exists>st. processRepositories (\<lambda>n. noonOfDay 20754)
              (oneRepo [commitBy ''a@b.c'' (noonOfDay 20754)]) [''/repo'', ''/repo''] ''a@b.c'' 0
            = Inr st)"
proof -
  let ?d = "oneRepo [commitBy ''a@b.c'' (noonOfDay 20754)]"
  have ok: "repoFailure ?d ''/repo'' = None"
    by (simp add: repoFailure_def oneRepo_def)
  have bad: "repoFailure ?d ''/missing'' = Some (GitError ''repository does not exist'')"
    by (simp add: repoFailure_def oneRepo_def)
  show ?thesis
    using first_failure_aborts_run [of "[''/repo'']" ?d "''/missing''"
        "GitError ''repository does not exist''" "\<lambda>n. noonOfDay 20754" "[''/repo'']" "''a@b.c''" 0
        "[''/repo'', ''/repo'']"] ok bad
    by simp
qed

text \<open>
  The claim as stated fails: with a path that does not open before a readable repository,
  the run ends with the error, and the commit that the readable repository alone would
  add to key 4 is never counted.
\<close>

theorem unreadable_repository_not_skipped:
  "processRepositories (\<lambda>n. noonOfDay 20754) (oneRepo [commitBy ''a@b.c'' (noonOfDay 20754)])
       [''/missing'', ''/repo''] ''a@b.c'' 0
     = Inl (GitError ''repository does not exist'')
   \<and> (case processRepositories (\<lambda>n. noonOfDay 20754)
             (oneRepo [commitBy ''a@b.c'' (noonOfDay 20754)]) [''/repo''] ''a@b.c'' 0 of
         Inl err \<Rightarrow> False
       | Inr (commits, n) \<Rightarrow> map_of commits 4 = Some 1)"
  by code_simp

section \<open>The columns of an aggregated histogram\<close>

lemma goDiv_nonneg: "0 \<le> k \<Longrightarrow> goDiv k 7 = k div 7"
  by (cases "k = 0") (simp_all add: goDiv_def)

lemma goMod_nonneg: "0 \<le> k \<Longrightarrow> goMod k 7 = k mod 7"
  by (simp add: goMod_def goDiv_nonneg minus_div_mult_eq_mod)

lemma week_of: "0 \<le> w \<Longrightarrow> 0 \<le> r \<Longrightarrow> r < 7 \<Longrightarrow> goDiv (7 * w + r) 7 = w \<and> goMod (7 * w + r) 7 = r"
  by (simp add: goDiv_nonneg goMod_nonneg)

lemma buildColsLoop_append:
  "buildColsLoop (a @ b) commits st = buildColsLoop b commits (buildColsLoop a commits st)"
  by (induction a commits st rule: buildColsLoop.induct) (simp_all add: Let_def)

lemma upto7: "[a..a + 6] = [a, a + 1, a + 2, a + 3, a + 4, a + 5, a + 6]"
  by (simp add: upto_rec1)

lemma week_block:
  assumes "1 \<le> w"
  shows "buildColsLoop [7 * w, 7 * w + 1, 7 * w + 2, 7 * w + 3, 7 * w + 4, 7 * w + 5, 7 * w + 6]
           commits (cols, col)
         = (mapAssign cols w
              (map (mapIndex commits)
                 [7 * w, 7 * w + 1, 7 * w + 2, 7 * w + 3, 7 * w + 4, 7 * w + 5, 7 * w + 6]),
            map (mapIndex commits)
                 [7 * w, 7 * w + 1, 7 * w + 2, 7 * w + 3, 7 * w + 4, 7 * w + 5, 7 * w + 6])"
  using assms week_of [of w 0] week_of [of w 1] week_of [of w 2] week_of [of w 3]
    week_of [of w 4] week_of [of w 5] week_of [of w 6]
  by (simp add: Let_def)

lemma first_block:
  "buildColsLoop [1, 2, 3, 4, 5, 6] commits ([], [])
     = ([(0, map (mapIndex commits) [1, 2, 3, 4, 5, 6])], map (mapIndex commits) [1, 2, 3, 4, 5, 6])"
  by (simp add: Let_def goDiv_def goMod_def mapAssign_def)

lemma buildColsLoop_frame:
  "\<forall>k\<in>set keys. goDiv k 7 \<noteq> w \<Longrightarrow>
   map_of (fst (buildColsLoop keys commits (cols, col))) w = map_of cols w"
proof (induction keys arbitrary: cols col)
  case Nil
  then show ?case by simp
next
  case (Cons k keys)
  then show ?case by (simp add: Let_def mapAssign_def update_conv')
qed


lemma keys_mapAssign: "fst ` set (mapAssign m k v) = insert k (fst ` set m)"
  by (simp add: mapAssign_def dom_update)

lemma distinct_mapAssign: "distinct (map fst m) \<Longrightarrow> distinct (map fst (mapAssign m k v))"
  by (simp add: mapAssign_def distinct_update)

lemma seedLoop_keys:
  "fst ` set (seedLoop i m) = fst ` set m \<union> {1..i}"
proof (induction i m rule: seedLoop.induct)
  case (1 i commits)
  show ?case
  proof (cases "i > 0")
    case True
    have "insert i {1..i - 1} = {1..i}" using True by auto
    then show ?thesis using True "1.IH" [OF True] by (auto simp: keys_mapAssign)
  next
    case False
    then show ?thesis by simp
  qed
qed

lemma seedLoop_distinct:
  "distinct (map fst m) \<Longrightarrow> distinct (map fst (seedLoop i m))"
proof (induction i m rule: seedLoop.induct)
  case (1 i commits)
  show ?case
  proof (cases "i > 0")
    case True
    then show ?thesis using "1.IH" [OF True] "1.prems" by (simp add: distinct_mapAssign)
  next
    case False
    then show ?thesis using "1.prems" by simp
  qed
qed

lemma seeded_seedLoop: "seeded (seedLoop daysInLastSixMonths [])"
  using seedLoop_distinct [of "[]" daysInLastSixMonths]
  by (auto simp: seeded_def seedLoop_keys simp del: seedLoop.simps)

lemma seeded_mapIncr: "seeded m \<Longrightarrow> 1 \<le> k \<Longrightarrow> seeded (mapIncr m k)"
  by (auto simp: seeded_def mapIncr_def keys_mapAssign distinct_mapAssign)

lemma countDaysSinceDate_nonneg: "0 \<le> countDaysSinceDate clockNow date"
proof (cases "Before date (getBeginningOfDay clockNow)")
  case True
  then have "1 \<le> ceilDays (getBeginningOfDay clockNow) date"
    using ceil_pos [OF day_pos, of "unixNano (getBeginningOfDay clockNow) - unixNano date"]
    by (simp add: ceilDays_def Before_def)
  then show ?thesis using True by (simp add: countDaysSinceDate_closed outOfRange_def)
next
  case False
  then show ?thesis by (simp add: countDaysSinceDate_closed)
qed

lemma seeded_commitCallback:
  "seeded m \<Longrightarrow> 1 \<le> offset \<Longrightarrow> seeded (commitCallback clockNow email offset c m)"
  using countDaysSinceDate_nonneg [of clockNow "When (Author c)"]
  by (simp add: commitCallback_def Let_def seeded_mapIncr)

lemma seeded_forEachCommit:
  "seeded m \<Longrightarrow> 1 \<le> offset \<Longrightarrow> seeded (fst (forEachCommit clk email offset cs (m, n)))"
  by (induction cs arbitrary: m n) (simp_all add: seeded_commitCallback)

lemma seeded_fillCommits:
  "seeded (fst st) \<Longrightarrow> fillCommits clk PlainOpen email path st = Inr st' \<Longrightarrow> seeded (fst st')"
  using calcOffset_range [of "clk (snd st)"]
  by (auto simp: fillCommits_def Let_def seeded_forEachCommit split: sum.splits option.splits)

lemma seeded_reposLoop:
  "seeded (fst st) \<Longrightarrow> reposLoop clk PlainOpen email repos st = Inr st' \<Longrightarrow> seeded (fst st')"
proof (induction repos arbitrary: st)
  case Nil
  then show ?case by simp
next
  case (Cons p repos)
  then show ?case by (auto split: sum.splits dest: seeded_fillCommits)
qed

lemma seeded_processRepositories:
  "processRepositories clk PlainOpen repos email n = Inr (commits, n') \<Longrightarrow> seeded commits"
  using seeded_reposLoop [of "(seedLoop daysInLastSixMonths [], n)" clk PlainOpen email repos
      "(commits, n')"] seeded_seedLoop
  by (simp add: processRepositories_def Let_def del: seedLoop.simps)

lemma sorted_split:
  "sorted xs \<Longrightarrow> filter (\<lambda>k. k \<le> N) xs @ filter (\<lambda>k. N < k) xs = (xs :: int list)"
proof (induction xs)
  case Nil
  then show ?case by simp
next
  case (Cons x xs)
  show ?case
  proof (cases "x \<le> N")
    case True
    then show ?thesis using Cons by simp
  next
    case False
    then have "\<forall>y\<in>set xs. \<not> y \<le> N" using Cons.prems by auto
    then have "filter (\<lambda>k. k \<le> N) xs = []" "filter (\<lambda>k. N < k) xs = xs"
      by (auto simp: filter_empty_conv filter_id_conv)
    then show ?thesis using False by simp
  qed
qed

lemma sorted_keys_prefix:
  assumes "seeded m"
  shows "\<exists>ys. sortMapIntoSlice m = [1..daysInLastSixMonths] @ ys
              \<and> (\<forall>y\<in>set ys. daysInLastSixMonths < y)"
proof -
  let ?xs = "sortMapIntoSlice m"
  let ?N = daysInLastSixMonths
  have srt: "sorted ?xs" and dst: "distinct ?xs" and st: "set ?xs = fst ` set m"
    using assms by (simp_all add: sortMapIntoSlice_def seeded_def)
  have "set (filter (\<lambda>k. k \<le> ?N) ?xs) = {1..?N}"
    using assms st by (auto simp: seeded_def)
  then have "filter (\<lambda>k. k \<le> ?N) ?xs = [1..?N]"
    using srt dst
    by (intro sorted_distinct_set_unique) (simp_all add: sorted_wrt_filter)
  then have "?xs = [1..?N] @ filter (\<lambda>k. ?N < k) ?xs"
    using sorted_split [OF srt, of ?N] by simp
  then show ?thesis by (intro exI [of _ "filter (\<lambda>k. ?N < k) ?xs"]) simp
qed


lemma upto_weeks:
  assumes "1 \<le> w" "w \<le> 25"
  shows "[1..daysInLastSixMonths] =
           [1..7 * w - 1] @ [7 * w, 7 * w + 1, 7 * w + 2, 7 * w + 3, 7 * w + 4, 7 * w + 5, 7 * w + 6]
             @ [7 * w + 7..daysInLastSixMonths]"
proof -
  have a: "[1..daysInLastSixMonths] = [1..7 * w - 1] @ [7 * w..daysInLastSixMonths]"
    using assms upto_split1 [of 1 "7 * w" daysInLastSixMonths] by (simp add: daysInLastSixMonths_def)
  have b: "[7 * w..daysInLastSixMonths] = [7 * w..7 * w + 6] @ [7 * w + 7..daysInLastSixMonths]"
    using assms upto_split2 [of "7 * w" "7 * w + 6" daysInLastSixMonths]
    by (simp add: daysInLastSixMonths_def add.commute)
  show ?thesis using a b upto7 [of "7 * w"] by simp
qed

lemma upto_week0:
  "[1..daysInLastSixMonths] = [1, 2, 3, 4, 5, 6] @ [7..daysInLastSixMonths]"
proof -
  have "[1..daysInLastSixMonths] = [1..6] @ [7..daysInLastSixMonths]"
    using upto_split2 [of 1 6 daysInLastSixMonths] by (simp add: daysInLastSixMonths_def)
  moreover have "[1..6] = [1, 2, 3, 4, 5, 6 :: int]" by (simp add: upto_rec1)
  ultimately show ?thesis by simp
qed

lemma later_weeks: "0 \<le> w \<Longrightarrow> 7 * w + 7 \<le> k \<Longrightarrow> goDiv k 7 \<noteq> w"
  by (simp add: goDiv_nonneg)

lemma grid_week:
  assumes "seeded commits" "1 \<le> w" "w \<le> 25"
  shows "map_of (buildCols (sortMapIntoSlice commits) commits) w
           = Some (map (mapIndex commits)
                [7 * w, 7 * w + 1, 7 * w + 2, 7 * w + 3, 7 * w + 4, 7 * w + 5, 7 * w + 6])"
proof -
  obtain ys where keys: "sortMapIntoSlice commits = [1..daysInLastSixMonths] @ ys"
    and ys: "\<forall>y\<in>set ys. daysInLastSixMonths < y"
    using sorted_keys_prefix [OF assms(1)] by blast
  let ?blk = "[7 * w, 7 * w + 1, 7 * w + 2, 7 * w + 3, 7 * w + 4, 7 * w + 5, 7 * w + 6]"
  let ?post = "[7 * w + 7..daysInLastSixMonths] @ ys"
  have split: "sortMapIntoSlice commits = [1..7 * w - 1] @ ?blk @ ?post"
    using keys upto_weeks [OF assms(2,3)] by simp
  obtain cols1 col1 where pre: "buildColsLoop [1..7 * w - 1] commits ([], []) = (cols1, col1)"
    by (cases "buildColsLoop [1..7 * w - 1] commits ([], [])") simp
  have post: "\<forall>k\<in>set ?post. goDiv k 7 \<noteq> w"
  proof
    fix k
    assume "k \<in> set ?post"
    then have "7 * w + 7 \<le> k"
      using ys assms(3) by (auto simp: daysInLastSixMonths_def)
    then show "goDiv k 7 \<noteq> w"
      using later_weeks [of w k] assms(2) by simp
  qed
  have "buildColsLoop (sortMapIntoSlice commits) commits ([], [])
          = buildColsLoop ?post commits
              (mapAssign cols1 w (map (mapIndex commits) ?blk), map (mapIndex commits) ?blk)"
    unfolding split buildColsLoop_append pre week_block [OF assms(2)] ..
  then show ?thesis
    using buildColsLoop_frame [OF post]
    by (simp add: buildCols_def mapAssign_def update_conv' del: buildColsLoop.simps)
qed

lemma grid_week0:
  assumes "seeded commits"
  shows "map_of (buildCols (sortMapIntoSlice commits) commits) 0
           = Some (map (mapIndex commits) [1, 2, 3, 4, 5, 6])"
proof -
  obtain ys where keys: "sortMapIntoSlice commits = [1..daysInLastSixMonths] @ ys"
    and ys: "\<forall>y\<in>set ys. daysInLastSixMonths < y"
    using sorted_keys_prefix [OF assms(1)] by blast
  let ?post = "[7..daysInLastSixMonths] @ ys"
  have split: "sortMapIntoSlice commits = [1, 2, 3, 4, 5, 6] @ ?post"
    using keys upto_week0 by simp
  have post: "\<forall>k\<in>set ?post. goDiv k 7 \<noteq> 0"
  proof
    fix k
    assume "k \<in> set ?post"
    then have "7 \<le> k"
      using ys by (auto simp: daysInLastSixMonths_def)
    then show "goDiv k 7 \<noteq> 0"
      using later_weeks [of 0 k] by simp
  qed
  have "buildColsLoop (sortMapIntoSlice commits) commits ([], [])
          = buildColsLoop ?post commits
              ([(0, map (mapIndex commits) [1, 2, 3, 4, 5, 6])],
               map (mapIndex commits) [1, 2, 3, 4, 5, 6])"
    unfolding split buildColsLoop_append first_block ..
  then show ?thesis
    using buildColsLoop_frame [OF post]
    by (simp add: buildCols_def del: buildColsLoop.simps)
qed


lemma seeded_keys:
  "seeded m \<Longrightarrow> map_of m 0 = None \<and> (\<forall>k. 1 \<le> k \<and> k \<le> daysInLastSixMonths \<longrightarrow> map_of m k \<noteq> None)"
  unfolding seeded_def
proof (intro conjI allI impI)
  assume a: "distinct (map fst m) \<and> {1..daysInLastSixMonths} \<subseteq> fst ` set m \<and> fst ` set m \<subseteq> {1..}"
  then have "0 \<notin> fst ` set m" by auto
  then show "map_of m 0 = None" by (simp add: map_of_eq_None_iff)
next
  fix k
  assume a: "distinct (map fst m) \<and> {1..daysInLastSixMonths} \<subseteq> fst ` set m \<and> fst ` set m \<subseteq> {1..}"
    and k: "1 \<le> k \<and> k \<le> daysInLastSixMonths"
  then have "k \<in> fst ` set m" by auto
  then show "map_of m k \<noteq> None" by (simp add: map_of_eq_None_iff)
qed

lemma printCellAt_week0:
  assumes col: "map_of cols 0 = Some (map f [1, 2, 3, 4, 5, 6])"
    and j: "0 \<le> j" "j \<le> 5" "j \<noteq> calcOffset (clk m) - 1"
  shows "printCellAt clk cols j 0 (out, m) = Inr (out @ printCell (f (j + 1)) False, Suc m)"
proof -
  have "j = 0 \<or> j = 1 \<or> j = 2 \<or> j = 3 \<or> j = 4 \<or> j = 5" using j by arith
  then show ?thesis
    using col j(3) by (auto simp: printCellAt_def sliceIndex_def)
qed

lemma printCellAt_week:
  assumes col: "map_of cols w
                  = Some (map f [7 * w, 7 * w + 1, 7 * w + 2, 7 * w + 3, 7 * w + 4, 7 * w + 5, 7 * w + 6])"
    and w: "1 \<le> w" and j: "0 \<le> j" "j \<le> 6"
  shows "printCellAt clk cols j w st = Inr (fst st @ printCell (f (7 * w + j)) False, snd st)"
proof -
  have "j = 0 \<or> j = 1 \<or> j = 2 \<or> j = 3 \<or> j = 4 \<or> j = 5 \<or> j = 6" using j by arith
  then show ?thesis
    using col w by (auto simp: printCellAt_def sliceIndex_def)
qed

text \<open>
  Claim C10, as amended. In every histogram that \<open>processRepositories\<close> returns, key 0
  is missing and the keys 1 to 183 are present. In the grid built from it, the column of
  week 0 has exactly six entries, entry \<open>m\<close> being the count of day index \<open>m + 1\<close>, and
  \<open>printCells\<close> prints in a row \<open>j\<close> from 0 to 5 of week 0 that is not the today cell
  the count of day index \<open>j + 1\<close>. The column of each week from 1 to 25 has exactly seven
  entries, entry \<open>j\<close> being the count of day index \<open>7 * week + j\<close>, and that is the count
  printed in row \<open>j\<close> of the week.
\<close>

theorem aggregated_grid_columns:
  "processRepositories clk PlainOpen repos email n = Inr (commits, n') \<longrightarrow>
   map_of commits 0 = None
   \<and> (\<forall>k. 1 \<le> k \<and> k \<le> daysInLastSixMonths \<longrightarrow> map_of commits k \<noteq> None)
   \<and> map_of (buildCols (sortMapIntoSlice commits) commits) 0
       = Some (map (mapIndex commits) [1, 2, 3, 4, 5, 6])
   \<and> (\<forall>j out m. 0 \<le> j \<and> j \<le> 5 \<and> j \<noteq> calcOffset (clk m) - 1 \<longrightarrow>
         printCellAt clk (buildCols (sortMapIntoSlice commits) commits) j 0 (out, m)
           = Inr (out @ printCell (mapIndex commits (j + 1)) False, Suc m))
   \<and> (\<forall>w. 1 \<le> w \<and> w \<le> 25 \<longrightarrow>
         map_of (buildCols (sortMapIntoSlice commits) commits) w
           = Some (map (mapIndex commits)
                [7 * w, 7 * w + 1, 7 * w + 2, 7 * w + 3, 7 * w + 4, 7 * w + 5, 7 * w + 6]))
   \<and> (\<forall>w j st. 1 \<le> w \<and> w \<le> 25 \<and> 0 \<le> j \<and> j \<le> 6 \<longrightarrow>
         printCellAt clk (buildCols (sortMapIntoSlice commits) commits) j w st
           = Inr (fst st @ printCell (mapIndex commits (7 * w + j)) False, snd st))"
proof
  assume run: "processRepositories clk PlainOpen repos email n = Inr (commits, n')"
  have sd: "seeded commits" using seeded_processRepositories [OF run] .
  let ?cols = "buildCols (sortMapIntoSlice commits) commits"
  have k0: "map_of commits 0 = None"
    and ks: "\<forall>k. 1 \<le> k \<and> k \<le> daysInLastSixMonths \<longrightarrow> map_of commits k \<noteq> None"
    using seeded_keys [OF sd] by blast+
  have w0: "map_of ?cols 0 = Some (map (mapIndex commits) [1, 2, 3, 4, 5, 6])"
    using grid_week0 [OF sd] .
  have c0: "\<forall>j out m. 0 \<le> j \<and> j \<le> 5 \<and> j \<noteq> calcOffset (clk m) - 1 \<longrightarrow>
         printCellAt clk ?cols j 0 (out, m)
           = Inr (out @ printCell (mapIndex commits (j + 1)) False, Suc m)"
    using printCellAt_week0 [OF w0] by blast
  have ww: "\<forall>w. 1 \<le> w \<and> w \<le> 25 \<longrightarrow>
         map_of ?cols w
           = Some (map (mapIndex commits)
                [7 * w, 7 * w + 1, 7 * w + 2, 7 * w + 3, 7 * w + 4, 7 * w + 5, 7 * w + 6])"
    using grid_week [OF sd] by blast
  have cw: "\<forall>w j st. 1 \<le> w \<and> w \<le> 25 \<and> 0 \<le> j \<and> j \<le> 6 \<longrightarrow>
         printCellAt clk ?cols j w st
           = Inr (fst st @ printCell (mapIndex commits (7 * w + j)) False, snd st)"
    using printCellAt_week ww by blast
  show "map_of commits 0 = None
   \<and> (\<forall>k. 1 \<le> k \<and> k \<le> daysInLastSixMonths \<longrightarrow> map_of commits k \<noteq> None)
   \<and> map_of ?cols 0 = Some (map (mapIndex commits) [1, 2, 3, 4, 5, 6])
   \<and> (\<forall>j out m. 0 \<le> j \<and> j \<le> 5 \<and> j \<noteq> calcOffset (clk m) - 1 \<longrightarrow>
         printCellAt clk ?cols j 0 (out, m)
           = Inr (out @ printCell (mapIndex commits (j + 1)) False, Suc m))
   \<and> (\<forall>w. 1 \<le> w \<and> w \<le> 25 \<longrightarrow>
         map_of ?cols w
           = Some (map (mapIndex commits)
                [7 * w, 7 * w + 1, 7 * w + 2, 7 * w + 3, 7 * w + 4, 7 * w + 5, 7 * w + 6]))
   \<and> (\<forall>w j st. 1 \<le> w \<and> w \<le> 25 \<and> 0 \<le> j \<and> j \<le> 6 \<longrightarrow>
         printCellAt clk ?cols j w st
           = Inr (fst st @ printCell (mapIndex commits (7 * w + j)) False, snd st))"
    using k0 ks w0 c0 ww cw by blast
qed

text \<open>The theorem on the example of Wednesday 2026-10-28.\<close>

lemma threeCommits_run:
  "(case processRepositories (\<lambda>n. noonOfDay 20754) (oneRepo threeCommits) [''/repo''] ''a@b.c'' 0 of
      Inl err \<Rightarrow> False
    | Inr (commits, n) \<Rightarrow>
        map (mapIndex commits) [1, 2, 3, 4, 5, 6] = [0, 0, 0, 1, 0, 0]
        \<and> map (mapIndex commits) [7, 8, 9, 10, 11, 12, 13] = [2, 0, 0, 0, 0, 0, 0])"
  by code_simp

theorem aggregated_grid_columns_witness:
  "\<exists>commits n'.
     processRepositories (\<lambda>n. noonOfDay 20754) (oneRepo threeCommits) [''/repo''] ''a@b.c'' 0
       = Inr (commits, n')
     \<and> map_of commits 0 = None \<and> map_of commits 183 \<noteq> None
     \<and> map_of (buildCols (sortMapIntoSlice commits) commits) 0 = Some [0, 0, 0, 1, 0, 0]
     \<and> printCellAt (\<lambda>n. noonOfDay 20754) (buildCols (sortMapIntoSlice commits) commits) 2 0 ([], 7)
         = Inr (printCell 0 False, 8)
     \<and> map_of (buildCols (sortMapIntoSlice commits) commits) 1 = Some [2, 0, 0, 0, 0, 0, 0]
     \<and> printCellAt (\<lambda>n. noonOfDay 20754) (buildCols (sortMapIntoSlice commits) commits) 0 1 ([], 7)
         = Inr (printCell 2 False, 7)"
proof -
  let ?clk = "\<lambda>n::nat. noonOfDay 20754"
  obtain commits n' where
    run: "processRepositories ?clk (oneRepo threeCommits) [''/repo''] ''a@b.c'' 0 = Inr (commits, n')"
    and v0: "map (mapIndex commits) [1, 2, 3, 4, 5, 6] = [0, 0, 0, 1, 0, 0]"
    and v1: "map (mapIndex commits) [7, 8, 9, 10, 11, 12, 13] = [2, 0, 0, 0, 0, 0, 0]"
    using threeCommits_run by (auto split: sum.splits)
  have off: "calcOffset (noonOfDay 20754) = 4" by code_simp
  note t = aggregated_grid_columns [of ?clk "oneRepo threeCommits" "[''/repo'']" "''a@b.c''" 0
      commits n', THEN mp, OF run]
  have a: "map_of commits 0 = None" using t by blast
  have b: "map_of commits 183 \<noteq> None"
    using t by (simp add: daysInLastSixMonths_def)
  have c: "map_of (buildCols (sortMapIntoSlice commits) commits) 0 = Some [0, 0, 0, 1, 0, 0]"
    using t v0 by simp
  have d: "printCellAt ?clk (buildCols (sortMapIntoSlice commits) commits) 2 0 ([], 7)
         = Inr (printCell 0 False, 8)"
    using t off v0 by simp
  have e: "map_of (buildCols (sortMapIntoSlice commits) commits) 1 = Some [2, 0, 0, 0, 0, 0, 0]"
    using t v1 by simp
  have f: "printCellAt ?clk (buildCols (sortMapIntoSlice commits) commits) 0 1 ([], 7)
         = Inr (printCell 2 False, 7)"
    using t v1 by simp
  show ?thesis using run a b c d e f by blast
qed

text \<open>
  The claim as stated fails for the other columns and for row 6 of week 0. On a Sunday
  (offset 7) a commit made 181 days before is counted under key 188, position 6 of week
  26, while the keys 184 to 187 are missing: the column stored for week 26 has the three
  entries of keys 182, 183 and 188. And on a Wednesday with a commit under key 7, row 6
  of week 0 finds no entry in its column of six and prints the empty cell.
\<close>

theorem short_column_in_week_26:
  "(case processRepositories (\<lambda>n. noonOfDay 20758)
            (oneRepo [commitBy ''a@b.c'' (noonOfDay 20577)]) [''/repo''] ''a@b.c'' 0 of
      Inl err \<Rightarrow> False
    | Inr (commits, n) \<Rightarrow>
        map_of (buildCols (sortMapIntoSlice commits) commits) 26 = Some [0, 0, 1])
   \<and> (case processRepositories (\<lambda>n. noonOfDay 20754)
            (oneRepo [commitBy ''a@b.c'' (noonOfDay 20751)]) [''/repo''] ''a@b.c'' 0 of
      Inl err \<Rightarrow> False
    | Inr (commits, n) \<Rightarrow>
        mapIndex commits 7 = 1
        \<and> printCellAt (\<lambda>n. noonOfDay 20754) (buildCols (sortMapIntoSlice commits) commits) 6 0 ([], n)
            = Inr (printCell 0 False, Suc n))"
  by code_simp

section \<open>Two runs and the clock\<close>

lemma same_day_countDays:
  "getBeginningOfDay a = getBeginningOfDay b \<Longrightarrow> countDaysSinceDate a d = countDaysSinceDate b d"
  by (simp add: countDaysSinceDate_def del: countDaysLoop.simps)

lemma same_day_commitCallback:
  "getBeginningOfDay a = getBeginningOfDay b \<Longrightarrow>
   commitCallback a email offset c m = commitCallback b email offset c m"
  by (simp add: commitCallback_def same_day_countDays [of a b])

lemma same_day_forEachCommit:
  assumes "readsOnDay clkA now" "readsOnDay clkB now"
  shows "forEachCommit clkA email offset cs (m, n) = forEachCommit clkB email offset cs (m, n)"
proof (induction cs arbitrary: m n)
  case Nil
  then show ?case by simp
next
  case (Cons c cs)
  have "getBeginningOfDay (clkA n) = getBeginningOfDay (clkB n)"
    using assms by (simp add: readsOnDay_def)
  then have "commitCallback (clkA n) email offset c m = commitCallback (clkB n) email offset c m"
    by (rule same_day_commitCallback)
  then show ?case using Cons by simp
qed

lemma same_day_calcOffset:
  assumes "readsOnDay clkA now" "readsOnDay clkB now"
  shows "calcOffset (clkA n) = calcOffset (clkB m)"
  using assms by (simp add: readsOnDay_def calcOffset_def)

lemma same_day_fillCommits:
  assumes "readsOnDay clkA now" "readsOnDay clkB now"
  shows "fillCommits clkA PlainOpen email path st = fillCommits clkB PlainOpen email path st"
  using same_day_calcOffset [OF assms, of "snd st" "snd st"] same_day_forEachCommit [OF assms]
  by (simp add: fillCommits_def Let_def split: sum.splits option.splits)

lemma same_day_reposLoop:
  assumes "readsOnDay clkA now" "readsOnDay clkB now"
  shows "reposLoop clkA PlainOpen email repos st = reposLoop clkB PlainOpen email repos st"
  by (induction repos arbitrary: st) (simp_all add: same_day_fillCommits [OF assms] split: sum.splits)

lemma same_day_processRepositories:
  assumes "readsOnDay clkA now" "readsOnDay clkB now"
  shows "processRepositories clkA PlainOpen repos email n = processRepositories clkB PlainOpen repos email n"
  by (simp add: processRepositories_def same_day_reposLoop [OF assms] del: seedLoop.simps)

lemma same_day_printCellAt:
  assumes "readsOnDay clkA now" "readsOnDay clkB now"
  shows "printCellAt clkA cols j i st = printCellAt clkB cols j i st"
  using same_day_calcOffset [OF assms, of "snd st" "snd st"]
  by (simp add: printCellAt_def split: option.splits)

lemma same_day_weeksLoop:
  assumes "readsOnDay clkA now" "readsOnDay clkB now"
  shows "weeksLoop clkA w cols j i st = weeksLoop clkB w cols j i st"
proof (induction "nat (i + 1)" arbitrary: i st)
  case 0
  then have "\<not> i \<ge> 0" by simp
  then show ?case by simp
next
  case (Suc k)
  then have pos: "i \<ge> 0" and k: "k = nat (i - 1 + 1)" by simp_all
  let ?st1 = "if i = w + 1 then (fst st @ printDayCol j, snd st) else st"
  have cell: "printCellAt clkA cols j i ?st1 = printCellAt clkB cols j i ?st1"
    using same_day_printCellAt [OF assms] .
  show ?case
  proof (cases "printCellAt clkB cols j i ?st1")
    case (Inl err)
    then show ?thesis
      using pos cell weeksLoop.simps [of clkA w cols j i st] weeksLoop.simps [of clkB w cols j i st]
      by (simp del: weeksLoop.simps)
  next
    case (Inr st1)
    then show ?thesis
      using pos cell Suc.hyps(1) [OF k, of st1]
        weeksLoop.simps [of clkA w cols j i st] weeksLoop.simps [of clkB w cols j i st]
      by (simp del: weeksLoop.simps)
  qed
qed

lemma same_day_daysLoop:
  assumes "readsOnDay clkA now" "readsOnDay clkB now"
  shows "daysLoop clkA w cols j st = daysLoop clkB w cols j st"
proof (induction "nat (j + 1)" arbitrary: j st)
  case 0
  then have "\<not> j \<ge> 0" by simp
  then show ?case by simp
next
  case (Suc k)
  then have pos: "j \<ge> 0" and k: "k = nat (j - 1 + 1)" by simp_all
  have row: "weeksLoop clkA w cols j (w + 1) st = weeksLoop clkB w cols j (w + 1) st"
    using same_day_weeksLoop [OF assms] .
  show ?case
  proof (cases "weeksLoop clkB w cols j (w + 1) st")
    case (Inl err)
    then show ?thesis
      using pos row daysLoop.simps [of clkA w cols j st] daysLoop.simps [of clkB w cols j st]
      by (simp del: daysLoop.simps weeksLoop.simps)
  next
    case (Inr st1)
    then show ?thesis
      using pos row Suc.hyps(1) [OF k, of "(fst st1 @ [CHR 0x0A], snd st1)"]
        daysLoop.simps [of clkA w cols j st] daysLoop.simps [of clkB w cols j st]
      by (simp del: daysLoop.simps weeksLoop.simps)
  qed
qed

lemma After_aligned:
  assumes "unixNano day0 \<le> unixNano r" "unixNano r < unixNano day0 + 24 * Hour"
  shows "After (Add (Add day0 (k * (24 * Hour))) (7 * Hour * 24)) r \<longleftrightarrow> - 6 \<le> k"
proof -
  define D where "D = 24 * Hour"
  have Dpos: "0 < D" using day_pos by (simp add: D_def)
  have b: "unixNano day0 \<le> unixNano r" "unixNano r < unixNano day0 + D"
    using assms by (simp_all add: D_def)
  have inst: "unixNano (Add (Add day0 (k * (24 * Hour))) (7 * Hour * 24))
                = unixNano day0 + (k + 7) * D"
    by (simp add: Add_def D_def algebra_simps)
  show ?thesis
  proof (cases "- 6 \<le> k")
    case True
    then have "1 * D \<le> (k + 7) * D"
      using Dpos by (intro mult_right_mono) simp_all
    then have "unixNano r < unixNano day0 + (k + 7) * D"
      using b by linarith
    then show ?thesis unfolding After_def inst using True by simp
  next
    case False
    then have "(k + 7) * D \<le> 0"
      using Dpos by (intro mult_nonpos_nonneg) simp_all
    then have "\<not> unixNano r < unixNano day0 + (k + 7) * D"
      using b by linarith
    then show ?thesis unfolding After_def inst using False by simp
  qed
qed

lemma Add_aligned:
  "Add (Add day0 (k * (24 * Hour))) (7 * Hour * 24) = Add day0 ((k + 7) * (24 * Hour))"
  by (simp add: Add_def algebra_simps)

lemma printMonthsLoop_step:
  assumes "readsOnDay clk now"
  shows "printMonthsLoop clk (Add (getBeginningOfDay now) (k * (24 * Hour))) month st =
     (let week = Add (getBeginningOfDay now) (k * (24 * Hour));
          out1 =
            (if Month week \<noteq> month then fst st @ take 3 (monthString (Month week)) @ '' ''
             else fst st @ ''    '');
          month1 = (if Month week \<noteq> month then Month week else month)
      in if - 6 \<le> k then Some (out1, Suc (snd st))
         else printMonthsLoop clk (Add (getBeginningOfDay now) ((k + 7) * (24 * Hour))) month1
                (out1, Suc (snd st)))"
proof -
  have b: "unixNano (getBeginningOfDay now) \<le> unixNano (clk (snd st))"
    "unixNano (clk (snd st)) < unixNano (getBeginningOfDay now) + 24 * Hour"
    using assms by (simp_all add: readsOnDay_def)
  have a: "After (Add (getBeginningOfDay now) ((k + 7) * (24 * Hour))) (clk (snd st)) \<longleftrightarrow> - 6 \<le> k"
    using After_aligned [OF b, of k] by (simp only: Add_aligned)
  show ?thesis
    by (subst printMonthsLoop.simps) (simp only: Add_aligned a Let_def)
qed

lemma same_day_printMonthsLoop:
  assumes "readsOnDay clkA now" "readsOnDay clkB now"
  shows "printMonthsLoop clkA (Add (getBeginningOfDay now) (k * (24 * Hour))) month st
           = printMonthsLoop clkB (Add (getBeginningOfDay now) (k * (24 * Hour))) month st
         \<and> printMonthsLoop clkA (Add (getBeginningOfDay now) (k * (24 * Hour))) month st \<noteq> None"
proof (induction "nat (- k)" arbitrary: k month st rule: less_induct)
  case less
  let ?week = "Add (getBeginningOfDay now) (k * (24 * Hour))"
  let ?out1 = "if Month ?week \<noteq> month then fst st @ take 3 (monthString (Month ?week)) @ '' ''
               else fst st @ ''    ''"
  let ?month1 = "if Month ?week \<noteq> month then Month ?week else month"
  let ?next = "Add (getBeginningOfDay now) ((k + 7) * (24 * Hour))"
  show ?case
  proof (cases "- 6 \<le> k")
    case True
    have "printMonthsLoop clkA ?week month st = Some (?out1, Suc (snd st))"
      using True by (simp only: printMonthsLoop_step [OF assms(1), of k month st] Let_def if_True)
    moreover have "printMonthsLoop clkB ?week month st = Some (?out1, Suc (snd st))"
      using True by (simp only: printMonthsLoop_step [OF assms(2), of k month st] Let_def if_True)
    ultimately show ?thesis by simp
  next
    case False
    have A: "printMonthsLoop clkA ?week month st
               = printMonthsLoop clkA ?next ?month1 (?out1, Suc (snd st))"
      using False by (simp only: printMonthsLoop_step [OF assms(1), of k month st] Let_def if_False)
    have B: "printMonthsLoop clkB ?week month st
               = printMonthsLoop clkB ?next ?month1 (?out1, Suc (snd st))"
      using False by (simp only: printMonthsLoop_step [OF assms(2), of k month st] Let_def if_False)
    have "nat (- (k + 7)) < nat (- k)" using False by simp
    note IH = less.hyps [OF this, of ?month1 "(?out1, Suc (snd st))"]
    show ?thesis unfolding A B by (rule IH)
  qed
qed

lemma months_start:
  "getBeginningOfDay r = day0 \<Longrightarrow>
   Add (getBeginningOfDay r) (- (daysInLastSixMonths * Hour * 24)) = Add day0 (- 183 * (24 * Hour))"
  by (simp add: daysInLastSixMonths_def)

lemma same_day_printMonths:
  assumes "readsOnDay clkA now" "readsOnDay clkB now"
  shows "printMonths clkA st = printMonths clkB st \<and> printMonths clkA st \<noteq> None"
proof -
  let ?wk = "Add (getBeginningOfDay now) (- 183 * (24 * Hour))"
  let ?st0 = "(fst st @ ''         '', Suc (snd st))"
  have eqA: "Add (getBeginningOfDay (clkA (snd st))) (- (daysInLastSixMonths * Hour * 24)) = ?wk"
    using assms(1) by (intro months_start) (simp add: readsOnDay_def)
  have eqB: "Add (getBeginningOfDay (clkB (snd st))) (- (daysInLastSixMonths * Hour * 24)) = ?wk"
    using assms(2) by (intro months_start) (simp add: readsOnDay_def)
  note L = same_day_printMonthsLoop [OF assms, of "- 183" "Month ?wk" ?st0]
  then obtain r where rA: "printMonthsLoop clkA ?wk (Month ?wk) ?st0 = Some r"
    by blast
  then have rB: "printMonthsLoop clkB ?wk (Month ?wk) ?st0 = Some r"
    using L by simp
  have "printMonths clkA st = Some (fst r @ [CHR 0x0A], snd r)"
    unfolding printMonths_def Let_def eqA rA by simp
  moreover have "printMonths clkB st = Some (fst r @ [CHR 0x0A], snd r)"
    unfolding printMonths_def Let_def eqB rB by simp
  ultimately show ?thesis by simp
qed

lemma same_day_printCells:
  assumes "readsOnDay clkA now" "readsOnDay clkB now"
  shows "printCells clkA w cols st = printCells clkB w cols st \<and> printCells clkA w cols st \<noteq> None"
proof -
  obtain st1 where mA: "printMonths clkA st = Some st1"
    using same_day_printMonths [OF assms, of st] by blast
  then have mB: "printMonths clkB st = Some st1"
    using same_day_printMonths [OF assms, of st] by simp
  have "printCells clkA w cols st = Some (daysLoop clkA w cols 6 st1)"
    unfolding printCells_def mA by simp
  moreover have "printCells clkB w cols st = Some (daysLoop clkA w cols 6 st1)"
    unfolding printCells_def mB same_day_daysLoop [OF assms, of w cols 6 st1] by simp
  ultimately show ?thesis by simp
qed

lemma same_day_stats:
  assumes "readsOnDay clkA now" "readsOnDay clkB now"
  shows "stats clkA PlainOpen repos w email = stats clkB PlainOpen repos w email
         \<and> stats clkA PlainOpen repos w email \<noteq> None"
proof (cases "processRepositories clkA PlainOpen repos email 0")
  case (Inl err)
  then have "processRepositories clkB PlainOpen repos email 0 = Inl err"
    using same_day_processRepositories [OF assms, of PlainOpen repos email 0] by simp
  then show ?thesis using Inl by (simp add: stats_def)
next
  case (Inr res)
  obtain commits n where res: "res = (commits, n)" by (cases res)
  have pA: "processRepositories clkA PlainOpen repos email 0 = Inr (commits, n)"
    using Inr res by simp
  then have pB: "processRepositories clkB PlainOpen repos email 0 = Inr (commits, n)"
    using same_day_processRepositories [OF assms, of PlainOpen repos email 0] by simp
  let ?cols = "buildCols (sortMapIntoSlice commits) commits"
  obtain y where cA: "printCells clkA w ?cols ([], n) = Some y"
    using same_day_printCells [OF assms, of w ?cols "([], n)"] by blast
  then have cB: "printCells clkB w ?cols ([], n) = Some y"
    using same_day_printCells [OF assms, of w ?cols "([], n)"] by simp
  have "stats clkA PlainOpen repos w email = Some y"
    unfolding stats_def pA printCommitsStats_def Let_def using cA by simp
  moreover have "stats clkB PlainOpen repos w email = Some y"
    unfolding stats_def pB printCommitsStats_def Let_def using cB by simp
  ultimately show ?thesis by simp
qed


lemma utc_day:
  assumes "loc t = UTC" "d * (24 * Hour) \<le> unixNano t" "unixNano t < d * (24 * Hour) + 24 * Hour"
  shows "localDay t = d"
proof -
  have "localDay t = unixNano t div 1000000000 div 86400"
    using assms(1) by (simp add: localDay_def unixSec_def zoneOffset_def lookup_def UTC_def Second_def)
  also have "\<dots> = unixNano t div (1000000000 * 86400)"
    by (simp add: zdiv_zmult2_eq)
  also have "\<dots> = d"
    using assms(2,3)
    by (intro int_div_pos_eq [where r = "unixNano t - d * 86400000000000"])
       (simp_all add: Hour_def Second_def)
  finally show ?thesis .
qed

lemma utc_start:
  assumes "loc t = UTC" "d * (24 * Hour) \<le> unixNano t" "unixNano t < d * (24 * Hour) + 24 * Hour"
  shows "getBeginningOfDay t = \<lparr>unixNano = d * (24 * Hour), loc = UTC\<rparr>"
  using assms(1) utc_day [OF assms]
  by (simp add: getBeginningOfDay_def dateMidnight_def lookup_def UTC_def Let_def Hour_def Second_def)

lemma utc_readsOnDay:
  assumes "loc now = UTC" "d * (24 * Hour) \<le> unixNano now" "unixNano now < d * (24 * Hour) + 24 * Hour"
    and "\<forall>n. loc (clk n) = UTC \<and> d * (24 * Hour) \<le> unixNano (clk n)
              \<and> unixNano (clk n) < d * (24 * Hour) + 24 * Hour"
  shows "readsOnDay clk now"
  unfolding readsOnDay_def
proof (intro allI)
  fix n
  have c: "loc (clk n) = UTC" "d * (24 * Hour) \<le> unixNano (clk n)"
    "unixNano (clk n) < d * (24 * Hour) + 24 * Hour"
    using assms(4) by simp_all
  have s0: "getBeginningOfDay now = \<lparr>unixNano = d * (24 * Hour), loc = UTC\<rparr>"
    using utc_start [OF assms(1-3)] .
  have s1: "getBeginningOfDay (clk n) = \<lparr>unixNano = d * (24 * Hour), loc = UTC\<rparr>"
    using utc_start [OF c] .
  have w: "Weekday (clk n) = Weekday now"
    using utc_day [OF c] utc_day [OF assms(1-3)] by (simp add: Weekday_def)
  show "getBeginningOfDay (clk n) = getBeginningOfDay now \<and> Weekday (clk n) = Weekday now
        \<and> unixNano (getBeginningOfDay now) \<le> unixNano (clk n)
        \<and> unixNano (clk n) < unixNano (getBeginningOfDay now) + 24 * Hour"
    using s0 s1 w c by simp
qed

lemma clockWithin_noon:
  "readsOnDay (clockWithin (noonOfDay d) 1 1000) (noonOfDay d)
   \<and> readsOnDay (clockWithin (noonOfDay d) Second 3600) (noonOfDay d)"
proof -
  have noon: "loc (noonOfDay d) = UTC" "d * (24 * Hour) \<le> unixNano (noonOfDay d)"
    "unixNano (noonOfDay d) < d * (24 * Hour) + 24 * Hour"
    by (simp_all add: noonOfDay_def Hour_def Second_def)
  have a: "\<forall>n. loc (clockWithin (noonOfDay d) 1 1000 n) = UTC
             \<and> d * (24 * Hour) \<le> unixNano (clockWithin (noonOfDay d) 1 1000 n)
             \<and> unixNano (clockWithin (noonOfDay d) 1 1000 n) < d * (24 * Hour) + 24 * Hour"
    by (simp add: clockWithin_def Add_def noonOfDay_def Hour_def Second_def min_less_iff_disj)
  have b: "\<forall>n. loc (clockWithin (noonOfDay d) Second 3600 n) = UTC
             \<and> d * (24 * Hour) \<le> unixNano (clockWithin (noonOfDay d) Second 3600 n)
             \<and> unixNano (clockWithin (noonOfDay d) Second 3600 n) < d * (24 * Hour) + 24 * Hour"
    by (simp add: clockWithin_def Add_def noonOfDay_def Hour_def Second_def min_less_iff_disj)
  show ?thesis using utc_readsOnDay [OF noon a] utc_readsOnDay [OF noon b] by simp
qed

text \<open>
  Claim C9, as amended. No instant is passed in: \<open>countDaysSinceDate\<close>, \<open>calcOffset\<close>
  and \<open>printMonths\<close> read the system clock at each call. With the repositories, the
  list of paths and the address fixed, two runs whose clock readings all fall on one
  civil day return the same histogram and print the same text, and the printing ends.
\<close>

theorem same_day_runs_agree:
  "readsOnDay clkA now \<and> readsOnDay clkB now \<longrightarrow>
   processRepositories clkA PlainOpen repos email 0 = processRepositories clkB PlainOpen repos email 0
   \<and> stats clkA PlainOpen repos weeksInLastSixMonths email
       = stats clkB PlainOpen repos weeksInLastSixMonths email
   \<and> stats clkA PlainOpen repos weeksInLastSixMonths email \<noteq> None"
proof (intro impI conjI)
  assume h: "readsOnDay clkA now \<and> readsOnDay clkB now"
  then have a: "readsOnDay clkA now" and b: "readsOnDay clkB now" by simp_all
  show "processRepositories clkA PlainOpen repos email 0 = processRepositories clkB PlainOpen repos email 0"
    using same_day_processRepositories [OF a b] .
  show "stats clkA PlainOpen repos weeksInLastSixMonths email
       = stats clkB PlainOpen repos weeksInLastSixMonths email"
    using same_day_stats [OF a b] by (rule conjunct1)
  show "stats clkA PlainOpen repos weeksInLastSixMonths email \<noteq> None"
    using same_day_stats [OF a b] by (rule conjunct2)
qed

text \<open>
  The theorem on Wednesday 2026-10-28 from noon, with a clock that advances a nanosecond
  between readings and one that advances a second.
\<close>

theorem same_day_runs_agree_witness:
  "clockWithin (noonOfDay 20754) 1 1000 1 \<noteq> clockWithin (noonOfDay 20754) Second 3600 1
   \<and> processRepositories (clockWithin (noonOfDay 20754) 1 1000) (oneRepo threeCommits)
         [''/repo''] ''a@b.c'' 0
       = processRepositories (clockWithin (noonOfDay 20754) Second 3600) (oneRepo threeCommits)
         [''/repo''] ''a@b.c'' 0
   \<and> stats (clockWithin (noonOfDay 20754) 1 1000) (oneRepo threeCommits) [''/repo''] 26 ''a@b.c''
       = stats (clockWithin (noonOfDay 20754) Second 3600) (oneRepo threeCommits) [''/repo''] 26 ''a@b.c''
   \<and> stats (clockWithin (noonOfDay 20754) 1 1000) (oneRepo threeCommits) [''/repo''] 26 ''a@b.c''
       \<noteq> None"
proof -
  have d: "clockWithin (noonOfDay 20754) 1 1000 1 \<noteq> clockWithin (noonOfDay 20754) Second 3600 1"
    by (simp add: clockWithin_def Add_def noonOfDay_def Second_def)
  note t = same_day_runs_agree [of "clockWithin (noonOfDay 20754) 1 1000" "noonOfDay 20754"
        "clockWithin (noonOfDay 20754) Second 3600" "oneRepo threeCommits" "[''/repo'']" "''a@b.c''" 26,
        THEN mp, OF clockWithin_noon [of 20754]]
  show ?thesis using d t by blast
qed

text \<open>
  The claim as stated fails: two runs that start at the same instant, half a second
  before midnight, differ when the clock of one passes midnight before its second
  reading. For a commit of Saturday noon the first run reads Saturday twice and counts
  the commit under key 1; the second reads Saturday in \<open>calcOffset\<close> and Sunday in
  \<open>countDaysSinceDate\<close> and counts it under key 2.
\<close>

theorem midnight_between_readings:
  "clockWithin lateSaturday 1 1000 0 = clockWithin lateSaturday Second 3600 0
   \<and> (case processRepositories (clockWithin lateSaturday 1 1000)
             (oneRepo [commitBy ''a@b.c'' (noonOfDay 20757)]) [''/repo''] ''a@b.c'' 0 of
         Inl err \<Rightarrow> False
       | Inr (commits, n) \<Rightarrow> map_of commits 1 = Some 1 \<and> map_of commits 2 = Some 0)
   \<and> (case processRepositories (clockWithin lateSaturday Second 3600)
             (oneRepo [commitBy ''a@b.c'' (noonOfDay 20757)]) [''/repo''] ''a@b.c'' 0 of
         Inl err \<Rightarrow> False
       | Inr (commits, n) \<Rightarrow> map_of commits 1 = Some 0 \<and> map_of commits 2 = Some 1)"
  by code_simp

end
